theory Spec2Isabelle
  imports Main
begin

section \<open>Characters and strings of the interpreter\<close>

text \<open>
  \<^verbatim>\<open>silent_commander.py\<close> works on Python \<^verbatim>\<open>str\<close> values, sequences of Unicode code
  points. The strings covered here are those over the following code points: the code
  points below 256 (\<open>Latin c\<close>, the code being \<open>of_char c\<close>), U+0130 (capital I with
  dot above), U+0307 (combining dot above), and the lone surrogate U+DC80 (what the
  decoding of the command line yields for an undecodable byte 0x80). On these strings
  every operation below is the one Python performs.
\<close>

datatype pchar = Latin char | CapIDot | CombDot | LoneSurr

type_synonym pstr = "pchar list"

abbreviation lit :: "string \<Rightarrow> pstr" where
  "lit s \<equiv> map Latin s"

text \<open>\<^verbatim>\<open>str.isspace\<close> on one character, which is also the class \<^verbatim>\<open>\s\<close> of \<^verbatim>\<open>re\<close>.\<close>

definition latin_space :: "nat \<Rightarrow> bool" where
  "latin_space n = ((9 \<le> n \<and> n \<le> 13) \<or> (28 \<le> n \<and> n \<le> 32) \<or> n = 133 \<or> n = 160)"

fun is_space :: "pchar \<Rightarrow> bool" where
  "is_space (Latin c) = latin_space (of_char c)"
| "is_space CapIDot = False"
| "is_space CombDot = False"
| "is_space LoneSurr = False"

text \<open>The class \<^verbatim>\<open>\w\<close> of \<^verbatim>\<open>re\<close> on a \<^verbatim>\<open>str\<close> pattern: \<^verbatim>\<open>str.isalnum\<close> or the underscore.\<close>

definition latin_word :: "nat \<Rightarrow> bool" where
  "latin_word n = ((48 \<le> n \<and> n \<le> 57) \<or> (65 \<le> n \<and> n \<le> 90) \<or> n = 95 \<or> (97 \<le> n \<and> n \<le> 122)
     \<or> n = 170 \<or> n = 178 \<or> n = 179 \<or> n = 181 \<or> n = 185 \<or> n = 186 \<or> (188 \<le> n \<and> n \<le> 190)
     \<or> (192 \<le> n \<and> n \<le> 214) \<or> (216 \<le> n \<and> n \<le> 246) \<or> (248 \<le> n \<and> n \<le> 255))"

fun is_word :: "pchar \<Rightarrow> bool" where
  "is_word (Latin c) = latin_word (of_char c)"
| "is_word CapIDot = True"
| "is_word CombDot = False"
| "is_word LoneSurr = False"

text \<open>The characters that have a lower-case partner 32 code points above them.\<close>

definition latin_upper :: "nat \<Rightarrow> bool" where
  "latin_upper n = ((65 \<le> n \<and> n \<le> 90) \<or> (192 \<le> n \<and> n \<le> 214) \<or> (216 \<le> n \<and> n \<le> 222))"

text \<open>Adding 32 to such a code sets the bit of weight 32, which is clear in all of them.\<close>

fun latin_lower :: "char \<Rightarrow> char" where
  "latin_lower (Char b0 b1 b2 b3 b4 b5 b6 b7) =
     (if latin_upper (of_char (Char b0 b1 b2 b3 b4 b5 b6 b7))
      then Char b0 b1 b2 b3 b4 True b6 b7
      else Char b0 b1 b2 b3 b4 b5 b6 b7)"

text \<open>
  \<^verbatim>\<open>str.lower\<close> on one character (the full mapping: U+0130 becomes two characters), and
  the simple one-to-one mapping that \<^verbatim>\<open>re.IGNORECASE\<close> compares with.
\<close>

fun lower_char :: "pchar \<Rightarrow> pstr" where
  "lower_char (Latin c) = [Latin (latin_lower c)]"
| "lower_char CapIDot = [Latin CHR ''i'', CombDot]"
| "lower_char CombDot = [CombDot]"
| "lower_char LoneSurr = [LoneSurr]"

fun simple_lower :: "pchar \<Rightarrow> pchar" where
  "simple_lower (Latin c) = Latin (latin_lower c)"
| "simple_lower CapIDot = Latin CHR ''i''"
| "simple_lower CombDot = CombDot"
| "simple_lower LoneSurr = LoneSurr"

definition lower :: "pstr \<Rightarrow> pstr" where
  "lower s = concat (map lower_char s)"

definition strip :: "pstr \<Rightarrow> pstr" where
  "strip s = rev (dropWhile is_space (rev (dropWhile is_space s)))"

text \<open>\<^verbatim>\<open>str.startswith\<close> and the substring test \<^verbatim>\<open>needle in hay\<close>.\<close>

fun startswith :: "pstr \<Rightarrow> pstr \<Rightarrow> bool" where
  "startswith s [] = True"
| "startswith [] (p # ps) = False"
| "startswith (c # cs) (p # ps) = (c = p \<and> startswith cs ps)"

fun contains :: "pstr \<Rightarrow> pstr \<Rightarrow> bool" where
  "contains [] needle = (needle = [])"
| "contains (c # cs) needle = (startswith (c # cs) needle \<or> contains cs needle)"

section \<open>Splitting a transcription at the connectives\<close>

text \<open>
  \<^verbatim>\<open>re.split(r'\b(?:and|then)\b', transcription, flags=re.IGNORECASE)\<close>.
  \<^verbatim>\<open>\b\<close> holds between two positions exactly one of which is a word character; the
  start and the end of the string count as non-word.
\<close>

fun word_opt :: "pchar option \<Rightarrow> bool" where
  "word_opt None = False"
| "word_opt (Some c) = is_word c"

definition boundary :: "pchar option \<Rightarrow> pchar option \<Rightarrow> bool" where
  "boundary before after = (word_opt before \<noteq> word_opt after)"

fun first_opt :: "pstr \<Rightarrow> pchar option" where
  "first_opt [] = None"
| "first_opt (c # cs) = Some c"

text \<open>A literal of the pattern matches a character when the character's simple lower case is the literal.\<close>

fun ci_prefix :: "string \<Rightarrow> pstr \<Rightarrow> bool" where
  "ci_prefix [] s = True"
| "ci_prefix (l # ls) [] = False"
| "ci_prefix (l # ls) (c # cs) = (simple_lower c = Latin l \<and> ci_prefix ls cs)"

text \<open>
  \<open>match_word w before s\<close>: the pattern \<^verbatim>\<open>\bw\b\<close> matches at the head of \<open>s\<close>, where
  \<open>before\<close> is the character in front of \<open>s\<close> in the whole string.
\<close>

definition match_word :: "string \<Rightarrow> pchar option \<Rightarrow> pstr \<Rightarrow> bool" where
  "match_word w before s =
     (boundary before (first_opt s) \<and> ci_prefix w s \<and>
      boundary (first_opt (drop (length w - 1) s)) (first_opt (drop (length w) s)))"

definition match_conn :: "pchar option \<Rightarrow> pstr \<Rightarrow> nat option" where
  "match_conn before s =
     (if match_word ''and'' before s then Some 3
      else if match_word ''then'' before s then Some 4
      else None)"

text \<open>
  The scan of \<^verbatim>\<open>re.split\<close>: \<open>acc\<close> is the piece collected since the last match,
  \<open>before\<close> the character in front of the rest. A match closes the piece and the scan
  goes on behind the match; otherwise one character moves into the piece.
\<close>

function split_from :: "pchar option \<Rightarrow> pstr \<Rightarrow> pstr \<Rightarrow> pstr list" where
  "split_from before acc [] = [acc]"
| "split_from before acc (c # cs) =
     (case match_conn before (c # cs) of
        Some n \<Rightarrow> acc # split_from (first_opt (drop (n - 1) (c # cs))) [] (drop n (c # cs))
      | None \<Rightarrow> split_from (Some c) (acc @ [c]) cs)"
  by pat_completeness auto
termination
  by (relation "measure (\<lambda>(before, acc, s). length s)")
     (auto simp: match_conn_def split: if_splits)

definition re_split :: "pstr \<Rightarrow> pstr list" where
  "re_split s = split_from None [] s"

section \<open>The two anchored substitutions\<close>

text \<open>
  \<^verbatim>\<open>re.sub(r'^(?:search|find)(?:\s+for)?\s+', '', command)\<close> and
  \<^verbatim>\<open>re.sub(r'^open\s+', '', command)\<close>. Both patterns start with \<^verbatim>\<open>^\<close>, so the only
  possible match is at position 0 and at most one replacement happens. A regular
  expression is matched with backtracking, written here as continuations on the rest of
  the string: \<open>None\<close> is failure. The greedy \<^verbatim>\<open>\s+\<close> takes the whole run of spaces:
  what follows it in the pattern is the letter f or the end of the pattern, so giving
  spaces back never turns a failure into a match.
\<close>

definition literal :: "string \<Rightarrow> pstr \<Rightarrow> pstr option" where
  "literal w s = (if startswith s (lit w) then Some (drop (length w) s) else None)"

fun spaces1 :: "pstr \<Rightarrow> pstr option" where
  "spaces1 [] = None"
| "spaces1 (c # cs) = (if is_space c then Some (dropWhile is_space cs) else None)"

definition or_else :: "'a option \<Rightarrow> 'a option \<Rightarrow> 'a option" where
  "or_else a b = (case a of Some x \<Rightarrow> Some x | None \<Rightarrow> b)"

text \<open>\<^verbatim>\<open>(?:\s+for)?\s+\<close>: first with the optional group, then without it.\<close>

definition for_tail :: "pstr \<Rightarrow> pstr option" where
  "for_tail s =
     or_else (Option.bind (Option.bind (spaces1 s) (literal ''for'')) spaces1) (spaces1 s)"

definition match_search :: "pstr \<Rightarrow> pstr option" where
  "match_search s =
     or_else (Option.bind (literal ''search'' s) for_tail)
             (Option.bind (literal ''find'' s) for_tail)"

definition sub_search :: "pstr \<Rightarrow> pstr" where
  "sub_search command = (case match_search command of Some rest \<Rightarrow> rest | None \<Rightarrow> command)"

definition match_open :: "pstr \<Rightarrow> pstr option" where
  "match_open s = Option.bind (literal ''open'' s) spaces1"

definition sub_open :: "pstr \<Rightarrow> pstr" where
  "sub_open command = (case match_open command of Some rest \<Rightarrow> rest | None \<Rightarrow> command)"

section \<open>Percent-encoding\<close>

text \<open>
  \<^verbatim>\<open>urllib.parse.quote(query)\<close> encodes the string as UTF-8 with strict error handling and
  writes every byte that is not a letter, a digit or one of \<^verbatim>\<open>_.-~/\<close> as a percent sign
  and two upper-case hexadecimal digits. A byte is a \<open>char\<close>. A lone surrogate has no
  UTF-8 encoding: the call raises \<^verbatim>\<open>UnicodeEncodeError\<close>.
\<close>

fun utf8 :: "pchar \<Rightarrow> string option" where
  "utf8 (Latin (Char b0 b1 b2 b3 b4 b5 b6 b7)) =
     Some (if b7 then [Char b6 b7 False False False False True True,
                       Char b0 b1 b2 b3 b4 b5 False True]
           else [Char b0 b1 b2 b3 b4 b5 b6 b7])"
| "utf8 CapIDot = Some [CHR 0xC4, CHR 0xB0]"
| "utf8 CombDot = Some [CHR 0xCC, CHR 0x87]"
| "utf8 LoneSurr = None"

fun encode_utf8 :: "pstr \<Rightarrow> string option" where
  "encode_utf8 [] = Some []"
| "encode_utf8 (c # cs) =
     (case utf8 c of None \<Rightarrow> None
      | Some bs \<Rightarrow> (case encode_utf8 cs of None \<Rightarrow> None | Some rest \<Rightarrow> Some (bs @ rest)))"

definition safe_byte :: "nat \<Rightarrow> bool" where
  "safe_byte n = ((48 \<le> n \<and> n \<le> 57) \<or> (65 \<le> n \<and> n \<le> 90) \<or> (97 \<le> n \<and> n \<le> 122)
     \<or> n = 95 \<or> n = 46 \<or> n = 45 \<or> n = 126 \<or> n = 47)"

definition hex_digit :: "nat \<Rightarrow> char" where
  "hex_digit k = ''0123456789ABCDEF'' ! k"

definition quote_byte :: "char \<Rightarrow> string" where
  "quote_byte b =
     (if safe_byte (of_char b) then [b]
      else [CHR ''%'', hex_digit (of_char b div 16), hex_digit (of_char b mod 16)])"

datatype call =
    OpenNewTab string
  | StartFile string
  | Run "string list" bool

datatype exn = UnicodeEncodeError | CallFailed call

definition quote :: "pstr \<Rightarrow> exn + string" where
  "quote s = (case encode_utf8 s of None \<Rightarrow> Inl UnicodeEncodeError
              | Some bs \<Rightarrow> Inr (concat (map quote_byte bs)))"

section \<open>External calls\<close>

text \<open>
  The program acts on the outside through \<^verbatim>\<open>webbrowser.open_new_tab(url)\<close>,
  \<^verbatim>\<open>os.startfile(uri)\<close> and \<^verbatim>\<open>subprocess.run(cmd, shell=...)\<close>. The state is the list of
  the calls made so far. The host decides what \<^verbatim>\<open>platform.system().lower()\<close> is, whether
  \<^verbatim>\<open>os\<close> has \<^verbatim>\<open>startfile\<close>, and which calls raise an exception (given the calls made before).
  A statement returns the exception it raised, if any, and the new list of calls.
\<close>

record host =
  os_type :: pstr
  has_startfile :: bool
  call_raises :: "call list \<Rightarrow> call \<Rightarrow> bool"

type_synonym outcome = "exn option \<times> call list"

definition external :: "host \<Rightarrow> call \<Rightarrow> call list \<Rightarrow> outcome" where
  "external h c calls = (if call_raises h calls c then Some (CallFailed c) else None, calls @ [c])"

text \<open>\<^verbatim>\<open>try: ... except Exception: pass\<close>\<close>

definition try_pass :: "outcome \<Rightarrow> outcome" where
  "try_pass r = (None, snd r)"

definition open_browser :: "host \<Rightarrow> string \<Rightarrow> call list \<Rightarrow> outcome" where
  "open_browser h url calls = try_pass (external h (OpenNewTab url) calls)"

definition any_in :: "string list \<Rightarrow> pstr \<Rightarrow> bool" where
  "any_in ws target = list_ex (\<lambda>w. contains target (lit w)) ws"

definition win_uri :: "pstr \<Rightarrow> string" where
  "win_uri target =
     (if any_in [''sound'', ''audio'', ''volume''] target then ''ms-settings:sound''
      else if any_in [''display'', ''screen'', ''monitor''] target then ''ms-settings:display''
      else if any_in [''privacy'', ''security''] target then ''ms-settings:privacy''
      else if any_in [''bluetooth'', ''device''] target then ''ms-settings:bluetooth''
      else if any_in [''wifi'', ''network'', ''internet''] target then ''ms-settings:network''
      else if any_in [''power'', ''battery'', ''sleep''] target then ''ms-settings:powersleep''
      else ''ms-settings:'')"

definition win_settings :: "host \<Rightarrow> pstr \<Rightarrow> call list \<Rightarrow> outcome" where
  "win_settings h target calls =
     (if has_startfile h then external h (StartFile (win_uri target)) calls
      else external h (Run [''start'', win_uri target] True) calls)"

definition mac_uri :: "pstr \<Rightarrow> string" where
  "mac_uri target = ''x-apple.systempreferences:'' @
     (if any_in [''sound'', ''audio'', ''volume''] target then ''com.apple.preference.sound''
      else if any_in [''display'', ''screen'', ''monitor''] target then ''com.apple.preference.displays''
      else if any_in [''privacy'', ''security''] target then ''com.apple.preference.security?Privacy''
      else if any_in [''network'', ''wifi'', ''internet''] target then ''com.apple.preference.network''
      else if any_in [''update''] target then ''com.apple.preferences.softwareupdate''
      else [])"

definition mac_settings :: "host \<Rightarrow> pstr \<Rightarrow> call list \<Rightarrow> outcome" where
  "mac_settings h target calls = external h (Run [''open'', mac_uri target] False) calls"

definition linux_cmd :: "pstr \<Rightarrow> string list" where
  "linux_cmd target = [''gnome-control-center''] @
     (if any_in [''sound'', ''audio'', ''volume''] target then [''sound'']
      else if any_in [''display'', ''screen'', ''monitor''] target then [''display'']
      else if any_in [''network'', ''wifi''] target then [''network'']
      else if any_in [''bluetooth''] target then [''bluetooth'']
      else if any_in [''power''] target then [''power'']
      else [])"

definition linux_settings :: "host \<Rightarrow> pstr \<Rightarrow> call list \<Rightarrow> outcome" where
  "linux_settings h target calls = external h (Run (linux_cmd target) False) calls"

definition open_system_settings :: "host \<Rightarrow> pstr \<Rightarrow> call list \<Rightarrow> outcome" where
  "open_system_settings h target calls =
     try_pass
       (if contains (os_type h) (lit ''windows'') then win_settings h target calls
        else if contains (os_type h) (lit ''darwin'') then mac_settings h target calls
        else if contains (os_type h) (lit ''linux'') then linux_settings h target calls
        else (None, calls))"

section \<open>The commander\<close>

definition site_whitelist :: "(string \<times> string) list" where
  "site_whitelist =
     [(''youtube'', ''https://www.youtube.com''),
      (''gmail'', ''https://mail.google.com''),
      (''google'', ''https://www.google.com''),
      (''reddit'', ''https://www.reddit.com''),
      (''github'', ''https://github.com''),
      (''amazon'', ''https://www.amazon.com''),
      (''netflix'', ''https://www.netflix.com''),
      (''twitter'', ''https://twitter.com''),
      (''x'', ''https://x.com''),
      (''facebook'', ''https://www.facebook.com''),
      (''linkedin'', ''https://www.linkedin.com''),
      (''wikipedia'', ''https://www.wikipedia.org''),
      (''weather'', ''https://weather.com''),
      (''news'', ''https://news.google.com'')]"

definition search_query :: "pstr \<Rightarrow> pstr" where
  "search_query command = strip (sub_search command)"

definition handle_search :: "host \<Rightarrow> pstr \<Rightarrow> call list \<Rightarrow> outcome" where
  "handle_search h command calls =
     (let query = search_query command in
      if query \<noteq> [] then
        (case quote query of
           Inl e \<Rightarrow> (Some e, calls)
         | Inr q \<Rightarrow> open_browser h (''https://www.google.com/search?q='' @ q) calls)
      else (None, calls))"

text \<open>The loop over \<^verbatim>\<open>self.site_whitelist.items()\<close>, in insertion order, left at the first hit.\<close>

fun scan_sites :: "host \<Rightarrow> (string \<times> string) list \<Rightarrow> pstr \<Rightarrow> call list \<Rightarrow> outcome" where
  "scan_sites h [] target calls = (None, calls)"
| "scan_sites h ((key, url) # sites) target calls =
     (if contains target (lit key) then open_browser h url calls
      else scan_sites h sites target calls)"

definition open_target :: "pstr \<Rightarrow> pstr" where
  "open_target command = strip (sub_open command)"

definition handle_open :: "host \<Rightarrow> pstr \<Rightarrow> call list \<Rightarrow> outcome" where
  "handle_open h command calls =
     (let target = open_target command in
      if contains target (lit ''setting'') \<or> contains target (lit ''control panel'')
      then open_system_settings h target calls
      else scan_sites h site_whitelist target calls)"

definition dispatch :: "host \<Rightarrow> pstr \<Rightarrow> call list \<Rightarrow> outcome" where
  "dispatch h command calls =
     (if startswith command (lit ''search'') \<or> startswith command (lit ''find'')
      then handle_search h command calls
      else if startswith command (lit ''open'') then handle_open h command calls
      else (None, calls))"

text \<open>The loop of \<^verbatim>\<open>execute\<close> over the parts; an exception leaves the loop.\<close>

fun run_parts :: "host \<Rightarrow> pstr list \<Rightarrow> call list \<Rightarrow> outcome" where
  "run_parts h [] calls = (None, calls)"
| "run_parts h (part # parts) calls =
     (let clean_cmd = lower (strip part) in
      if clean_cmd = [] then run_parts h parts calls
      else (case dispatch h clean_cmd calls of
              (Some e, calls') \<Rightarrow> (Some e, calls')
            | (None, calls') \<Rightarrow> run_parts h parts calls'))"

definition execute :: "host \<Rightarrow> pstr \<Rightarrow> call list \<Rightarrow> outcome" where
  "execute h transcription calls =
     (if transcription = [] then (None, calls)
      else run_parts h (re_split transcription) calls)"

text \<open>The commands that \<^verbatim>\<open>execute\<close> hands to \<^verbatim>\<open>_dispatch\<close>, in order.\<close>

definition segments :: "pstr \<Rightarrow> pstr list" where
  "segments transcription =
     (if transcription = [] then []
      else filter (\<lambda>s. s \<noteq> []) (map (\<lambda>part. lower (strip part)) (re_split transcription)))"

section \<open>Notions used to state the properties\<close>

text \<open>An exception-aware run of \<^verbatim>\<open>_dispatch\<close> over a list of commands, in order.\<close>

fun dispatch_all :: "host \<Rightarrow> pstr list \<Rightarrow> call list \<Rightarrow> outcome" where
  "dispatch_all h [] calls = (None, calls)"
| "dispatch_all h (command # commands) calls =
     (case dispatch h command calls of
        (Some e, calls') \<Rightarrow> (Some e, calls')
      | (None, calls') \<Rightarrow> dispatch_all h commands calls')"

text \<open>
  Pieces and the separators between them, put back together:
  \<open>weave [p0, p1, p2] [s0, s1] = p0 @ s0 @ p1 @ s1 @ p2\<close>.
\<close>

fun weave :: "pstr list \<Rightarrow> pstr list \<Rightarrow> pstr" where
  "weave [] seps = []"
| "weave (p # ps) [] = p"
| "weave (p # ps) (sep # seps) = p @ sep @ weave ps seps"

text \<open>A separator is one of the two connectives, in any mix of cases.\<close>

definition is_connective :: "pstr \<Rightarrow> bool" where
  "is_connective sep = (map simple_lower sep = lit ''and'' \<or> map simple_lower sep = lit ''then'')"

text \<open>The last character of \<open>s\<close>, or \<open>b\<close> when \<open>s\<close> is empty.\<close>

fun last_opt :: "pchar option \<Rightarrow> pstr \<Rightarrow> pchar option" where
  "last_opt b [] = b"
| "last_opt b (c # cs) = last_opt (Some c) cs"

text \<open>
  \<open>whole_word_cuts b ps seps\<close>: there is one separator between any two neighbouring
  pieces, every separator is a connective, and the character in front of it and the
  character behind it (if any) are not word characters; \<open>b\<close> is the character in
  front of the first piece.
\<close>

fun whole_word_cuts :: "pchar option \<Rightarrow> pstr list \<Rightarrow> pstr list \<Rightarrow> bool" where
  "whole_word_cuts b [] seps = False"
| "whole_word_cuts b [p] seps = (seps = [])"
| "whole_word_cuts b (p # q # ps) [] = False"
| "whole_word_cuts b (p # q # ps) (sep # seps) =
     (is_connective sep \<and> \<not> word_opt (last_opt b p) \<and>
      \<not> word_opt (first_opt (weave (q # ps) seps)) \<and>
      whole_word_cuts (last_opt None sep) (q # ps) seps)"

text \<open>
  The settings rules as the specification words them: a list of keyword sets with a
  target each, read from the top; the first rule one of whose keywords occurs in the
  target string gives the result, and the default is used when there is none.
\<close>

fun first_rule :: "(string list \<times> string) list \<Rightarrow> string \<Rightarrow> pstr \<Rightarrow> string" where
  "first_rule [] default_id target = default_id"
| "first_rule ((keywords, target_id) # rules) default_id target =
     (if \<exists>w \<in> set keywords. contains target (lit w) then target_id
      else first_rule rules default_id target)"

definition win_rules :: "(string list \<times> string) list" where
  "win_rules =
     [([''sound'', ''audio'', ''volume''], ''ms-settings:sound''),
      ([''display'', ''screen'', ''monitor''], ''ms-settings:display''),
      ([''privacy'', ''security''], ''ms-settings:privacy''),
      ([''bluetooth'', ''device''], ''ms-settings:bluetooth''),
      ([''wifi'', ''network'', ''internet''], ''ms-settings:network''),
      ([''power'', ''battery'', ''sleep''], ''ms-settings:powersleep'')]"

section \<open>Evaluation and basic facts\<close>

lemmas eval_defs = execute_def re_split_def match_conn_def match_word_def boundary_def
  latin_word_def latin_upper_def latin_space_def strip_def lower_def dispatch_def
  handle_search_def handle_open_def search_query_def open_target_def sub_search_def
  sub_open_def match_search_def match_open_def for_tail_def or_else_def literal_def
  quote_def quote_byte_def safe_byte_def hex_digit_def open_browser_def try_pass_def
  external_def site_whitelist_def segments_def open_system_settings_def win_settings_def
  win_uri_def any_in_def

lemma open_browser_calls: "open_browser h url calls = (None, calls @ [OpenNewTab url])"
  by (simp add: open_browser_def try_pass_def external_def)

lemma scan_sites_find:
  "scan_sites h sites target calls =
     (case find (\<lambda>(key, url). contains target (lit key)) sites of
        None \<Rightarrow> (None, calls)
      | Some (key, url) \<Rightarrow> (None, calls @ [OpenNewTab url]))"
  by (induction sites) (auto simp: open_browser_calls)

lemma startswith_open_not_search:
  "startswith command (lit ''open'') \<Longrightarrow>
     \<not> startswith command (lit ''search'') \<and> \<not> startswith command (lit ''find'')"
  by (cases command) auto

lemma dispatch_open:
  "startswith command (lit ''open'') \<Longrightarrow> dispatch h command calls = handle_open h command calls"
  using startswith_open_not_search[of command] by (simp add: dispatch_def)

lemma run_parts_dispatch_all:
  "run_parts h parts calls =
     dispatch_all h (filter (\<lambda>s. s \<noteq> []) (map (\<lambda>part. lower (strip part)) parts)) calls"
  by (induction parts arbitrary: calls) (auto simp: Let_def split: prod.splits option.splits)

lemma execute_segments: "execute h transcription calls = dispatch_all h (segments transcription) calls"
  by (simp add: execute_def segments_def run_parts_dispatch_all)

text \<open>The substitutions on some commands, among them the ones where the pattern backtracks.\<close>

lemma sub_search_examples:
  "sub_search (lit ''search for cats'') = lit ''cats''"
  "sub_search (lit ''find   dogs'') = lit ''dogs''"
  "sub_search (lit ''search for'') = lit ''for''"
  "sub_search (lit ''search forest fires'') = lit ''forest fires''"
  "sub_search (lit ''searching'') = lit ''searching''"
  "sub_open (lit ''open  youtube'') = lit ''youtube''"
  "sub_open (lit ''openyoutube'') = lit ''openyoutube''"
  by (simp_all add: eval_defs)

section \<open>Two-step utterances\<close>

text \<open>
  Claim C1. The transcription "search for cats and open youtube" gives exactly the two
  segments "search for cats" and "open youtube"; the first is a search with the query
  "cats", the second opens the YouTube URL, and \<open>execute\<close> makes exactly these two
  calls in this order. "open youtube then search dogs" opens YouTube first and then
  searches for "dogs". This holds on every host and after any earlier calls.
\<close>

theorem two_step_examples:
  "segments (lit ''search for cats and open youtube'') = [lit ''search for cats'', lit ''open youtube'']
   \<and> search_query (lit ''search for cats'') = lit ''cats''
   \<and> dispatch h (lit ''search for cats'') calls =
       (None, calls @ [OpenNewTab ''https://www.google.com/search?q=cats''])
   \<and> dispatch h (lit ''open youtube'') calls = (None, calls @ [OpenNewTab ''https://www.youtube.com''])
   \<and> execute h (lit ''search for cats and open youtube'') calls =
       (None, calls @ [OpenNewTab ''https://www.google.com/search?q=cats'',
                       OpenNewTab ''https://www.youtube.com''])
   \<and> segments (lit ''open youtube then search dogs'') = [lit ''open youtube'', lit ''search dogs'']
   \<and> search_query (lit ''search dogs'') = lit ''dogs''
   \<and> execute h (lit ''open youtube then search dogs'') calls =
       (None, calls @ [OpenNewTab ''https://www.youtube.com'',
                       OpenNewTab ''https://www.google.com/search?q=dogs''])"
  by (simp add: eval_defs)

section \<open>Opening a site\<close>

text \<open>
  Claim C2. For a command that starts with "open" and whose target contains neither
  "setting" nor "control panel", the site table is read in its insertion order and the
  first entry whose name occurs in the target decides: its URL is opened in the browser
  and nothing else is called; when no name occurs nothing is called. The table starts
  with "youtube", and "open youtube music" opens the YouTube URL only.
\<close>

theorem open_first_site_wins:
  "(startswith command (lit ''open'') \<and>
    \<not> contains (open_target command) (lit ''setting'') \<and>
    \<not> contains (open_target command) (lit ''control panel'') \<longrightarrow>
    dispatch h command calls =
      (case find (\<lambda>(key, url). contains (open_target command) (lit key)) site_whitelist of
         None \<Rightarrow> (None, calls)
       | Some (key, url) \<Rightarrow> (None, calls @ [OpenNewTab url])))
   \<and> hd site_whitelist = (''youtube'', ''https://www.youtube.com'')
   \<and> execute h (lit ''open youtube music'') calls = (None, calls @ [OpenNewTab ''https://www.youtube.com''])"
proof (intro conjI impI)
  assume "startswith command (lit ''open'') \<and>
    \<not> contains (open_target command) (lit ''setting'') \<and>
    \<not> contains (open_target command) (lit ''control panel'')"
  then show "dispatch h command calls =
      (case find (\<lambda>(key, url). contains (open_target command) (lit key)) site_whitelist of
         None \<Rightarrow> (None, calls)
       | Some (key, url) \<Rightarrow> (None, calls @ [OpenNewTab url]))"
    by (simp add: dispatch_open handle_open_def scan_sites_find)
next
  show "hd site_whitelist = (''youtube'', ''https://www.youtube.com'')"
    by (simp add: site_whitelist_def)
next
  show "execute h (lit ''open youtube music'') calls = (None, calls @ [OpenNewTab ''https://www.youtube.com''])"
    by (simp add: eval_defs)
qed

theorem open_first_site_wins_witness:
  "startswith (lit ''open youtube music'') (lit ''open'') \<and>
   \<not> contains (open_target (lit ''open youtube music'')) (lit ''setting'') \<and>
   \<not> contains (open_target (lit ''open youtube music'')) (lit ''control panel'') \<and>
   find (\<lambda>(key, url). contains (open_target (lit ''open youtube music'')) (lit key)) site_whitelist
     = Some (''youtube'', ''https://www.youtube.com'') \<and>
   dispatch \<lparr>os_type = lit ''linux'', has_startfile = False, call_raises = (\<lambda>calls c. True)\<rparr>
     (lit ''open youtube music'') [] = (None, [OpenNewTab ''https://www.youtube.com''])"
  using open_first_site_wins
    [of "lit ''open youtube music''"
        "\<lparr>os_type = lit ''linux'', has_startfile = False, call_raises = (\<lambda>calls c. True)\<rparr>" "[]"]
  by (simp add: open_target_def sub_open_def match_open_def literal_def strip_def
      latin_space_def site_whitelist_def)

text \<open>
  Claim C10. The table has the one-letter name "x" in ninth place. A command that starts
  with "open", whose target contains the letter x, contains neither "setting" nor
  "control panel", and contains none of the names in front of "x" (youtube, gmail,
  google, reddit, github, amazon, netflix, twitter), opens https://x.com and nothing
  else; "open xkcd" is such a command.
\<close>

theorem open_letter_x:
  "(startswith command (lit ''open'') \<and>
    contains (open_target command) (lit ''x'') \<and>
    \<not> contains (open_target command) (lit ''setting'') \<and>
    \<not> contains (open_target command) (lit ''control panel'') \<and>
    (\<forall>key \<in> set [''youtube'', ''gmail'', ''google'', ''reddit'', ''github'', ''amazon'',
                  ''netflix'', ''twitter'']. \<not> contains (open_target command) (lit key)) \<longrightarrow>
    dispatch h command calls = (None, calls @ [OpenNewTab ''https://x.com'']))
   \<and> takeWhile (\<lambda>key. key \<noteq> ''x'') (map fst site_whitelist) =
       [''youtube'', ''gmail'', ''google'', ''reddit'', ''github'', ''amazon'', ''netflix'', ''twitter'']
   \<and> execute h (lit ''open xkcd'') calls = (None, calls @ [OpenNewTab ''https://x.com''])"
proof (intro conjI impI)
  assume a: "startswith command (lit ''open'') \<and>
    contains (open_target command) (lit ''x'') \<and>
    \<not> contains (open_target command) (lit ''setting'') \<and>
    \<not> contains (open_target command) (lit ''control panel'') \<and>
    (\<forall>key \<in> set [''youtube'', ''gmail'', ''google'', ''reddit'', ''github'', ''amazon'',
                  ''netflix'', ''twitter'']. \<not> contains (open_target command) (lit key))"
  then have "handle_open h command calls = (None, calls @ [OpenNewTab ''https://x.com''])"
    by (simp add: handle_open_def site_whitelist_def open_browser_calls)
  with a show "dispatch h command calls = (None, calls @ [OpenNewTab ''https://x.com''])"
    by (simp add: dispatch_open)
next
  show "takeWhile (\<lambda>key. key \<noteq> ''x'') (map fst site_whitelist) =
       [''youtube'', ''gmail'', ''google'', ''reddit'', ''github'', ''amazon'', ''netflix'', ''twitter'']"
    by (simp add: site_whitelist_def)
next
  show "execute h (lit ''open xkcd'') calls = (None, calls @ [OpenNewTab ''https://x.com''])"
    by (simp add: eval_defs)
qed

theorem open_letter_x_witness:
  "startswith (lit ''open xkcd'') (lit ''open'') \<and>
   open_target (lit ''open xkcd'') = lit ''xkcd'' \<and>
   contains (lit ''xkcd'') (lit ''x'') \<and>
   \<not> contains (lit ''xkcd'') (lit ''setting'') \<and>
   \<not> contains (lit ''xkcd'') (lit ''control panel'') \<and>
   list_all (\<lambda>key. \<not> contains (lit ''xkcd'') (lit key))
     [''youtube'', ''gmail'', ''google'', ''reddit'', ''github'', ''amazon'', ''netflix'', ''twitter''] \<and>
   dispatch \<lparr>os_type = lit ''linux'', has_startfile = False, call_raises = (\<lambda>calls c. True)\<rparr>
     (lit ''open xkcd'') [] = (None, [OpenNewTab ''https://x.com''])"
  using open_letter_x
    [of "lit ''open xkcd''"
        "\<lparr>os_type = lit ''linux'', has_startfile = False, call_raises = (\<lambda>calls c. True)\<rparr>" "[]"]
  by (simp add: open_target_def sub_open_def match_open_def literal_def strip_def latin_space_def)

section \<open>Unrecognised commands\<close>

text \<open>
  Claim C8. A command that starts with none of "search", "find" and "open" makes no
  external call and raises nothing: the list of calls is unchanged. "frobnicate the
  whatsit" is one segment of this kind and \<open>execute\<close> has no effect on it.
\<close>

theorem unrecognized_no_calls:
  "(\<not> startswith command (lit ''search'') \<and> \<not> startswith command (lit ''find'') \<and>
    \<not> startswith command (lit ''open'') \<longrightarrow> dispatch h command calls = (None, calls))
   \<and> segments (lit ''frobnicate the whatsit'') = [lit ''frobnicate the whatsit'']
   \<and> execute h (lit ''frobnicate the whatsit'') calls = (None, calls)"
  by (simp add: eval_defs)

theorem unrecognized_no_calls_witness:
  "\<not> startswith (lit ''frobnicate the whatsit'') (lit ''search'') \<and>
   \<not> startswith (lit ''frobnicate the whatsit'') (lit ''find'') \<and>
   \<not> startswith (lit ''frobnicate the whatsit'') (lit ''open'') \<and>
   dispatch \<lparr>os_type = lit ''windows'', has_startfile = True, call_raises = (\<lambda>calls c. False)\<rparr>
     (lit ''frobnicate the whatsit'') [] = (None, [])"
  using unrecognized_no_calls
    [of "lit ''frobnicate the whatsit''"
        "\<lparr>os_type = lit ''windows'', has_startfile = True, call_raises = (\<lambda>calls c. False)\<rparr>" "[]"]
  by simp

section \<open>Opening a settings pane on Windows\<close>

text \<open>
  Claim C5. On a host whose system name contains "windows", the transcription
  "open settings sound" is one segment, its target "settings sound" contains "setting",
  and the one external call carries the URI ms-settings:sound (through
  \<^verbatim>\<open>os.startfile\<close> when it exists, through a shell \<^verbatim>\<open>start\<close> otherwise), not the
  default ms-settings:. For every target the chain of tests in \<^verbatim>\<open>_win_settings\<close> gives
  what the rule list gives when it is read from the top and the first rule with a
  keyword in the target wins, ms-settings: being the default.
\<close>

theorem windows_settings_sound:
  "(contains (os_type h) (lit ''windows'') \<longrightarrow>
      execute h (lit ''open settings sound'') calls =
        (None, calls @ [if has_startfile h then StartFile ''ms-settings:sound''
                        else Run [''start'', ''ms-settings:sound''] True]))
   \<and> segments (lit ''open settings sound'') = [lit ''open settings sound'']
   \<and> open_target (lit ''open settings sound'') = lit ''settings sound''
   \<and> contains (lit ''settings sound'') (lit ''setting'')
   \<and> win_uri (lit ''settings sound'') = ''ms-settings:sound''
   \<and> win_uri target = first_rule win_rules ''ms-settings:'' target"
proof (intro conjI impI)
  show "win_uri target = first_rule win_rules ''ms-settings:'' target"
    by (simp add: win_uri_def win_rules_def any_in_def)
qed (simp_all add: eval_defs)

theorem windows_settings_sound_witness:
  "contains (os_type \<lparr>os_type = lit ''windows'', has_startfile = False, call_raises = (\<lambda>calls c. True)\<rparr>)
     (lit ''windows'') \<and>
   execute \<lparr>os_type = lit ''windows'', has_startfile = False, call_raises = (\<lambda>calls c. True)\<rparr>
     (lit ''open settings sound'') [] = (None, [Run [''start'', ''ms-settings:sound''] True]) \<and>
   first_rule win_rules ''ms-settings:'' (lit ''settings sound'') = ''ms-settings:sound''"
  using windows_settings_sound
    [of "\<lparr>os_type = lit ''windows'', has_startfile = False, call_raises = (\<lambda>calls c. True)\<rparr>"
        "[]" "lit ''settings sound''"]
  by (simp add: win_rules_def)

section \<open>Facts about characters\<close>

lemma of_char_latin_lower:
  "of_char (latin_lower c) = (if latin_upper (of_char c) then of_char c + (32::nat) else of_char c)"
proof (cases c)
  case (Char b0 b1 b2 b3 b4 b5 b6 b7)
  define x :: nat
    where "x = of_bool b0 + 2 * of_bool b1 + 4 * of_bool b2 + 8 * of_bool b3 + 16 * of_bool b4"
  have x: "x < 32" unfolding x_def by (simp add: of_bool_def)
  have n: "of_char c = x + 32 * of_bool b5 + 64 * of_bool b6 + 128 * of_bool b7"
    unfolding Char x_def by simp
  have "\<not> b5" if "latin_upper (of_char c)"
    using that x unfolding n latin_upper_def by (cases b5; cases b6; cases b7) auto
  then show ?thesis unfolding Char by auto
qed

lemma latin_word_lower [simp]: "latin_word (of_char (latin_lower c)) = latin_word (of_char c)"
  unfolding of_char_latin_lower by (auto simp: latin_upper_def latin_word_def)

lemma latin_space_lower [simp]: "latin_space (of_char (latin_lower c)) = latin_space (of_char c)"
  unfolding of_char_latin_lower by (auto simp: latin_upper_def latin_space_def)

lemma latin_lower_idem [simp]: "latin_lower (latin_lower c) = latin_lower c"
  by (cases c) auto

lemma is_word_simple_lower [simp]: "is_word (simple_lower c) = is_word c"
  by (cases c) (simp_all, simp_all add: latin_word_def)

lemma is_space_simple_lower [simp]: "is_space (simple_lower c) = is_space c"
  by (cases c) (simp_all, simp_all add: latin_space_def)

lemma simple_lower_idem [simp]: "simple_lower (simple_lower c) = simple_lower c"
  by (cases c) simp_all

lemma is_word_literal: "simple_lower c = Latin l \<Longrightarrow> is_word c = latin_word (of_char l)"
  by (metis is_word_simple_lower is_word.simps(1))

lemma is_space_literal: "simple_lower c = Latin l \<Longrightarrow> is_space c = latin_space (of_char l)"
  by (metis is_space_simple_lower is_space.simps(1))

lemma lower_char_nonempty [simp]: "lower_char c \<noteq> []"
  by (cases c) simp_all

lemma lower_eq_Nil [simp]: "lower s = [] \<longleftrightarrow> s = []"
  by (cases s) (simp_all add: lower_def)

section \<open>Facts about the splitter\<close>

lemma split_from_nonempty [simp]: "split_from b acc s \<noteq> []"
  by (induction b acc s rule: split_from.induct) (auto split: option.splits)

lemma last_opt_append [simp]: "last_opt b (xs @ [c]) = Some c"
  by (induction xs arbitrary: b) auto

lemma ci_prefix_Cons:
  "ci_prefix (l # ls) s = (\<exists>c cs. s = c # cs \<and> simple_lower c = Latin l \<and> ci_prefix ls cs)"
  by (cases s) auto

lemma match_conn_Some:
  assumes "match_conn b s = Some n"
  shows "is_connective (take n s)" and "s = take n s @ drop n s"
    and "\<not> word_opt b" and "\<not> word_opt (first_opt (drop n s))"
    and "first_opt (drop (n - 1) s) = last_opt None (take n s)"
  using assms
  by (auto simp: match_conn_def match_word_def boundary_def ci_prefix_Cons is_connective_def
      is_word_literal latin_word_def split: if_splits)

lemma match_conn_space: "is_space c \<Longrightarrow> match_conn b (c # cs) = None"
  by (auto simp: match_conn_def match_word_def ci_prefix_Cons is_space_literal latin_space_def)

text \<open>
  The pieces, with the matched connectives between them, are the scanned text, and every
  cut is at a whole word. \<open>b0\<close> is the character in front of the piece that is being
  collected.
\<close>

lemma weave_split_from:
  "b = last_opt b0 acc \<Longrightarrow>
    \<exists>seps. weave (split_from b acc s) seps = acc @ s \<and> whole_word_cuts b0 (split_from b acc s) seps"
proof (induction b acc s arbitrary: b0 rule: split_from.induct)
  case (1 before acc)
  show ?case by (rule exI[of _ "[]"]) simp
next
  case (2 before acc c cs)
  show ?case
  proof (cases "match_conn before (c # cs)")
    case None
    have "Some c = last_opt b0 (acc @ [c])" by simp
    from "2.IH"(1)[OF None this] show ?thesis using None by simp
  next
    case (Some n)
    let ?s = "c # cs"
    let ?b' = "first_opt (drop (n - 1) ?s)"
    note m = match_conn_Some[OF Some]
    have "?b' = last_opt ?b' []" by simp
    from "2.IH"(2)[OF Some this] obtain seps where
      w: "weave (split_from ?b' [] (drop n ?s)) seps = drop n ?s" and
      c: "whole_word_cuts ?b' (split_from ?b' [] (drop n ?s)) seps" by auto
    obtain q qs where q: "split_from ?b' [] (drop n ?s) = q # qs"
      by (cases "split_from ?b' [] (drop n ?s)") auto
    have "weave (split_from before acc ?s) (take n ?s # seps) = acc @ ?s"
      using Some w m(2) by simp
    moreover have "whole_word_cuts b0 (split_from before acc ?s) (take n ?s # seps)"
      using Some w c q m "2.prems" by simp
    ultimately show ?thesis by blast
  qed
qed

lemma weave_re_split:
  "\<exists>seps. weave (re_split s) seps = s \<and> whole_word_cuts None (re_split s) seps"
  using weave_split_from[of None None "[]" s] by (simp add: re_split_def)

lemma split_from_spaces: "list_all is_space s \<Longrightarrow> split_from b acc s = [acc @ s]"
  by (induction s arbitrary: b acc) (simp_all add: match_conn_space)

lemma strip_spaces: "list_all is_space s \<Longrightarrow> strip s = []"
proof -
  assume "list_all is_space s"
  then have d: "dropWhile is_space s = []" by (simp add: list_all_iff)
  show ?thesis unfolding strip_def d by simp
qed

lemma segments_spaces: "list_all is_space s \<Longrightarrow> segments s = []"
  by (simp add: segments_def re_split_def split_from_spaces strip_spaces)

lemma clean_filter:
  "filter (\<lambda>s. s \<noteq> []) (map (\<lambda>part. lower (strip part)) parts) =
     map lower (filter (\<lambda>p. p \<noteq> []) (map strip parts))"
  by (induction parts) simp_all

section \<open>Whole-word splitting\<close>

text \<open>
  Claim C3, as the code has it. The splitter cuts only at whole words: the pieces of
  \<^verbatim>\<open>re.split\<close>, put back together with the separators that were cut out, are the
  transcription; every separator is "and" or "then" in some mix of cases, and neither
  the character in front of it nor the character behind it is a word character. So a
  connective inside another word is never cut out, and "open sandy settings" is one
  segment. Quotation marks play no part: they are not word characters, and a connective
  between quotation marks is cut out like any other.
\<close>

theorem split_only_whole_words:
  \<open>(\<exists>seps. weave (re_split transcription) seps = transcription \<and>
            whole_word_cuts None (re_split transcription) seps)
   \<and> segments (lit ''open sandy settings'') = [lit ''open sandy settings'']
   \<and> re_split (lit ''search for "fish and chips"'') = [lit ''search for "fish '', lit '' chips"'']\<close>
  by (simp add: weave_re_split) (simp add: eval_defs)

text \<open>
  Claim C3 as stated fails for a quoted phrase: the transcription
  \<^verbatim>\<open>search for "fish and chips"\<close> is cut at the quoted "and" into two segments.
\<close>

theorem quoted_connective_splits:
  \<open>segments (lit ''search for "fish and chips"'') = [lit ''search for "fish'', lit ''chips"'']\<close>
  by (simp add: eval_defs)

section \<open>Order and non-emptiness of the segments\<close>

text \<open>
  Claim C7. The pieces of the split are consecutive parts of the transcription, in
  their order in it; the segments are these pieces, trimmed and then lower-cased, in the
  same order, without those that are empty after trimming; \<open>execute\<close> dispatches exactly
  the segments, in order. No segment is the empty string. A transcription that is empty
  or consists of white space only has no segment, and \<open>execute\<close> makes no call on it.
\<close>

theorem segments_ordered_nonempty:
  "[] \<notin> set (segments transcription)
   \<and> (\<exists>seps. weave (re_split transcription) seps = transcription)
   \<and> segments transcription =
       map lower (filter (\<lambda>p. p \<noteq> []) (map strip (re_split transcription)))
   \<and> execute h transcription calls = dispatch_all h (segments transcription) calls
   \<and> (list_all is_space transcription \<longrightarrow>
        segments transcription = [] \<and> execute h transcription calls = (None, calls))"
proof (intro conjI impI)
  show "[] \<notin> set (segments transcription)"
    by (simp add: segments_def)
  show "\<exists>seps. weave (re_split transcription) seps = transcription"
    using weave_re_split[of transcription] by blast
  show "segments transcription =
       map lower (filter (\<lambda>p. p \<noteq> []) (map strip (re_split transcription)))"
  proof (cases "transcription = []")
    case True
    then show ?thesis by (simp add: segments_def re_split_def strip_def)
  next
    case False
    then show ?thesis by (simp add: segments_def clean_filter)
  qed
  show "execute h transcription calls = dispatch_all h (segments transcription) calls"
    by (rule execute_segments)
next
  assume "list_all is_space transcription"
  then show "segments transcription = []"
    by (rule segments_spaces)
  then show "execute h transcription calls = (None, calls)"
    by (simp add: execute_segments)
qed

theorem segments_ordered_nonempty_witness:
  "list_all is_space [Latin CHR '' '', Latin CHR 0x09, Latin CHR '' ''] \<and>
   segments [Latin CHR '' '', Latin CHR 0x09, Latin CHR '' ''] = [] \<and>
   execute \<lparr>os_type = lit ''linux'', has_startfile = False, call_raises = (\<lambda>calls c. False)\<rparr>
     [Latin CHR '' '', Latin CHR 0x09, Latin CHR '' ''] [] = (None, [])"
proof -
  have "list_all is_space [Latin CHR '' '', Latin CHR 0x09, Latin CHR '' '']"
    by (simp add: latin_space_def)
  with segments_ordered_nonempty
    [of "[Latin CHR '' '', Latin CHR 0x09, Latin CHR '' '']"
        "\<lparr>os_type = lit ''linux'', has_startfile = False, call_raises = (\<lambda>calls c. False)\<rparr>" "[]"]
  show ?thesis by blast
qed

section \<open>Case-insensitivity\<close>

lemma lower_char_simple: "c \<noteq> CapIDot \<Longrightarrow> lower_char c = [simple_lower c]"
  by (cases c) simp_all

lemma lower_map_simple: "CapIDot \<notin> set s \<Longrightarrow> lower s = map simple_lower s"
  by (induction s) (auto simp: lower_def lower_char_simple)

lemma lower_char_simple_lower: "c \<noteq> CapIDot \<Longrightarrow> lower_char (simple_lower c) = lower_char c"
  by (cases c) simp_all

lemma lower_simple_lower: "CapIDot \<notin> set s \<Longrightarrow> lower (map simple_lower s) = lower s"
  by (induction s) (auto simp: lower_def lower_char_simple_lower)

lemma word_opt_simple_lower [simp]: "word_opt (map_option simple_lower b) = word_opt b"
  by (cases b) simp_all

lemma first_opt_map [simp]: "first_opt (map f s) = map_option f (first_opt s)"
  by (cases s) simp_all

lemma ci_prefix_simple_lower [simp]: "ci_prefix w (map simple_lower s) = ci_prefix w s"
  by (induction w s rule: ci_prefix.induct) simp_all

lemma match_conn_simple_lower [simp]:
  "match_conn (map_option simple_lower b) (map simple_lower s) = match_conn b s"
  by (simp add: match_conn_def match_word_def boundary_def drop_map)

lemma split_from_simple_lower:
  "split_from (map_option simple_lower b) (map simple_lower acc) (map simple_lower s) =
     map (map simple_lower) (split_from b acc s)"
proof (induction b acc s rule: split_from.induct)
  case (1 before acc)
  show ?case by simp
next
  case (2 before acc c cs)
  have m: "match_conn (map_option simple_lower before) (simple_lower c # map simple_lower cs) =
           match_conn before (c # cs)"
    using match_conn_simple_lower[of before "c # cs"] by simp
  show ?case
  proof (cases "match_conn before (c # cs)")
    case None
    with "2.IH"(1)[OF None] m show ?thesis by simp
  next
    case (Some n)
    have "drop n (simple_lower c # map simple_lower cs) = map simple_lower (drop n (c # cs))"
      and "first_opt (drop (n - 1) (simple_lower c # map simple_lower cs)) =
           map_option simple_lower (first_opt (drop (n - 1) (c # cs)))"
      by (simp_all add: drop_map flip: list.map(2))
    with "2.IH"(2)[OF Some] m Some show ?thesis by simp
  qed
qed

lemma re_split_simple_lower: "re_split (map simple_lower s) = map (map simple_lower) (re_split s)"
  using split_from_simple_lower[of None "[]" s] by (simp add: re_split_def)

lemma strip_simple_lower: "strip (map simple_lower s) = map simple_lower (strip s)"
proof -
  have "is_space \<circ> simple_lower = is_space" by (rule ext) simp
  then show ?thesis by (simp add: strip_def dropWhile_map rev_map)
qed

lemma split_from_chars: "p \<in> set (split_from b acc s) \<Longrightarrow> set p \<subseteq> set acc \<union> set s"
proof (induction b acc s arbitrary: p rule: split_from.induct)
  case (1 before acc)
  then show ?case by simp
next
  case (2 before acc c cs)
  show ?case
  proof (cases "match_conn before (c # cs)")
    case None
    with "2.prems" "2.IH"(1)[OF None] show ?thesis by force
  next
    case (Some n)
    with "2.prems" consider "p = acc"
      | "p \<in> set (split_from (first_opt (drop (n - 1) (c # cs))) [] (drop n (c # cs)))" by auto
    then show ?thesis
    proof cases
      case 1
      then show ?thesis by auto
    next
      case 2
      from "2.IH"(2)[OF Some 2] have "set p \<subseteq> set (drop n (c # cs))" by simp
      then show ?thesis using set_drop_subset[of n "c # cs"] by blast
    qed
  qed
qed

lemma strip_chars: "set (strip s) \<subseteq> set s"
proof -
  have "set (strip s) \<subseteq> set (dropWhile is_space s)"
    unfolding strip_def using set_dropWhileD[of _ is_space "rev (dropWhile is_space s)"] by auto
  then show ?thesis using set_dropWhileD[of _ is_space s] by blast
qed

lemma run_parts_simple_lower:
  "\<forall>p \<in> set parts. CapIDot \<notin> set p \<Longrightarrow>
     run_parts h (map (map simple_lower) parts) calls = run_parts h parts calls"
proof (induction parts arbitrary: calls)
  case Nil
  show ?case by simp
next
  case (Cons part parts)
  then have "CapIDot \<notin> set (strip part)" using strip_chars[of part] by auto
  then have "lower (strip (map simple_lower part)) = lower (strip part)"
    by (simp add: strip_simple_lower lower_simple_lower)
  with Cons show ?case by (simp add: Let_def split: prod.splits option.splits)
qed

text \<open>
  Claim C9, as the code has it. For a transcription without the character U+0130, so
  for every transcription of code points below 256, \<open>execute\<close> on the lower-cased
  transcription returns what it returns on the transcription itself: the same calls and
  the same exception, if any. "OPEN YouTube"
  opens what "open youtube" opens, and "AND" and "Then" separate commands as "and" and
  "then" do.
\<close>

theorem execute_lower:
  assumes "CapIDot \<notin> set transcription"
  shows "execute h (lower transcription) calls = execute h transcription calls
    \<and> execute h (lit ''OPEN YouTube'') calls = execute h (lit ''open youtube'') calls
    \<and> segments (lit ''Open YouTube AND search Cats Then find dogs'') =
           [lit ''open youtube'', lit ''search cats'', lit ''find dogs'']"
proof (intro conjI)
  have l: "lower transcription = map simple_lower transcription"
    using assms by (rule lower_map_simple)
  have "\<forall>p \<in> set (re_split transcription). CapIDot \<notin> set p"
    using assms split_from_chars[of _ None "[]" transcription] by (auto simp: re_split_def)
  then have "run_parts h (re_split (lower transcription)) calls =
             run_parts h (re_split transcription) calls"
    unfolding l re_split_simple_lower by (rule run_parts_simple_lower)
  then show "execute h (lower transcription) calls = execute h transcription calls"
    by (simp add: execute_def)
  show "execute h (lit ''OPEN YouTube'') calls = execute h (lit ''open youtube'') calls"
    by (simp add: eval_defs)
  show "segments (lit ''Open YouTube AND search Cats Then find dogs'') =
           [lit ''open youtube'', lit ''search cats'', lit ''find dogs'']"
    by (simp add: eval_defs)
qed

theorem execute_lower_witness:
  "CapIDot \<notin> set (lit ''OPEN YouTube'') \<and>
   lower (lit ''OPEN YouTube'') = lit ''open youtube'' \<and>
   execute \<lparr>os_type = lit ''linux'', has_startfile = False, call_raises = (\<lambda>calls c. False)\<rparr>
     (lower (lit ''OPEN YouTube'')) [] =
   execute \<lparr>os_type = lit ''linux'', has_startfile = False, call_raises = (\<lambda>calls c. False)\<rparr>
     (lit ''OPEN YouTube'') []"
proof -
  have n: "CapIDot \<notin> set (lit ''OPEN YouTube'')" by simp
  have "lower (lit ''OPEN YouTube'') = lit ''open youtube''"
    by (simp add: lower_def latin_upper_def)
  with n execute_lower[OF n] show ?thesis by blast
qed

text \<open>
  Claim C9 as stated fails where lower-casing changes the words of the text. The
  character U+0130 is a word character, so when it stands directly in front of "and" in
  "open youtube and open google" there is no word boundary before "and" and the
  transcription is one segment, which opens YouTube. Lower-casing turns U+0130 into "i" and the
  combining dot U+0307, which is not a word character: the lower-cased transcription is
  split at "and" and opens YouTube and then Google.
\<close>

theorem execute_lower_differs:
  "execute \<lparr>os_type = lit ''linux'', has_startfile = False, call_raises = (\<lambda>calls c. False)\<rparr>
     (lit ''open youtube '' @ [CapIDot] @ lit ''and open google'') []
     = (None, [OpenNewTab ''https://www.youtube.com''])
   \<and> execute \<lparr>os_type = lit ''linux'', has_startfile = False, call_raises = (\<lambda>calls c. False)\<rparr>
     (lower (lit ''open youtube '' @ [CapIDot] @ lit ''and open google'')) []
     = (None, [OpenNewTab ''https://www.youtube.com'', OpenNewTab ''https://www.google.com''])"
  by (simp add: eval_defs)

section \<open>Searching, and what can raise\<close>

lemma encode_utf8_Some: "LoneSurr \<notin> set s \<Longrightarrow> \<exists>bs. encode_utf8 s = Some bs"
proof (induction s)
  case Nil
  show ?case by simp
next
  case (Cons c s)
  then obtain bs where "encode_utf8 s = Some bs" by auto
  moreover from Cons.prems obtain b where "utf8 c = Some b"
    by (cases c rule: utf8.cases) auto
  ultimately show ?case by simp
qed

lemma quote_Inr: "LoneSurr \<notin> set s \<Longrightarrow> \<exists>q. quote s = Inr q"
  using encode_utf8_Some[of s] by (auto simp: quote_def)

lemma literal_chars: "literal w s = Some r \<Longrightarrow> set r \<subseteq> set s"
  using set_drop_subset[of "length w" s] by (auto simp: literal_def split: if_splits)

lemma spaces1_chars: "spaces1 s = Some r \<Longrightarrow> set r \<subseteq> set s"
  using set_dropWhileD[of _ is_space "tl s"] by (cases s) (auto split: if_splits)

lemma for_tail_chars: "for_tail s = Some r \<Longrightarrow> set r \<subseteq> set s"
  by (auto simp: for_tail_def or_else_def bind_eq_Some_conv split: option.splits
      dest!: literal_chars spaces1_chars)

lemma sub_search_chars: "set (sub_search command) \<subseteq> set command"
  by (auto simp: sub_search_def match_search_def or_else_def bind_eq_Some_conv
      split: option.splits dest!: literal_chars for_tail_chars)

lemma search_query_chars: "set (search_query command) \<subseteq> set command"
  using strip_chars[of "sub_search command"] sub_search_chars[of command]
  by (auto simp: search_query_def)

lemma handle_search_Inr:
  "quote (search_query command) = Inr q \<Longrightarrow>
     handle_search h command calls =
       (if search_query command = [] then (None, calls)
        else (None, calls @ [OpenNewTab (''https://www.google.com/search?q='' @ q)]))"
  by (simp add: handle_search_def open_browser_calls)

text \<open>
  A search command without a lone surrogate: the browser is called exactly when the
  query is not empty, with the Google URL of the percent-encoded query.
\<close>

lemma search_encodable:
  assumes "startswith command (lit ''search'') \<or> startswith command (lit ''find'')"
    and "LoneSurr \<notin> set command"
  shows "\<exists>q. quote (search_query command) = Inr q \<and>
           dispatch h command calls =
             (if search_query command = [] then (None, calls)
              else (None, calls @ [OpenNewTab (''https://www.google.com/search?q='' @ q)]))"
proof -
  from assms(2) search_query_chars[of command] have "LoneSurr \<notin> set (search_query command)"
    by auto
  then obtain q where "quote (search_query command) = Inr q" using quote_Inr by blast
  with assms(1) show ?thesis by (auto simp: dispatch_def handle_search_Inr)
qed

lemma settings_no_raise: "fst (open_system_settings h target calls) = None"
  by (simp add: open_system_settings_def try_pass_def)

lemma scan_sites_no_raise: "fst (scan_sites h sites target calls) = None"
  by (induction sites) (auto simp: open_browser_calls)

lemma open_no_raise: "fst (handle_open h command calls) = None"
  by (simp add: handle_open_def Let_def settings_no_raise scan_sites_no_raise)

lemma dispatch_no_raise: "LoneSurr \<notin> set command \<Longrightarrow> fst (dispatch h command calls) = None"
  using search_encodable[of command h calls]
  by (auto simp: dispatch_def open_no_raise)

lemma lower_no_surrogate: "LoneSurr \<notin> set s \<Longrightarrow> LoneSurr \<notin> set (lower s)"
proof (induction s)
  case Nil
  show ?case by (simp add: lower_def)
next
  case (Cons c s)
  then show ?case by (cases c) (auto simp: lower_def)
qed

lemma run_parts_no_raise:
  "\<forall>p \<in> set parts. LoneSurr \<notin> set p \<Longrightarrow> fst (run_parts h parts calls) = None"
proof (induction parts arbitrary: calls)
  case Nil
  show ?case by simp
next
  case (Cons part parts)
  then have "LoneSurr \<notin> set (strip part)" using strip_chars[of part] by auto
  then have "fst (dispatch h (lower (strip part)) calls) = None"
    by (intro dispatch_no_raise lower_no_surrogate)
  with Cons show ?case by (auto simp: Let_def split: prod.splits option.splits)
qed

text \<open>
  Whatever the host and whichever external calls fail, \<open>execute\<close> raises nothing on a
  transcription without a lone surrogate: the exceptions of the external calls are
  swallowed.
\<close>

lemma execute_no_raise: "LoneSurr \<notin> set transcription \<Longrightarrow> fst (execute h transcription calls) = None"
proof -
  assume a: "LoneSurr \<notin> set transcription"
  then have "\<forall>p \<in> set (re_split transcription). LoneSurr \<notin> set p"
    using split_from_chars[of _ None "[]" transcription] by (auto simp: re_split_def)
  then show ?thesis by (simp add: execute_def run_parts_no_raise)
qed

text \<open>
  Claim C4 at the segment "search" followed by a space and the lone surrogate U+DC80:
  the segment starts with "search", the remainder after the pattern is the surrogate
  alone, which is not empty; yet no browser call is made, because building the URL
  raises \<^verbatim>\<open>UnicodeEncodeError\<close> in \<^verbatim>\<open>urllib.parse.quote\<close> before \<^verbatim>\<open>_open_browser\<close>
  is reached.
\<close>

theorem search_surrogate_no_browser:
  "startswith (lit ''search '' @ [LoneSurr]) (lit ''search'')
   \<and> sub_search (lit ''search '' @ [LoneSurr]) = [LoneSurr]
   \<and> search_query (lit ''search '' @ [LoneSurr]) = [LoneSurr]
   \<and> dispatch h (lit ''search '' @ [LoneSurr]) calls = (Some UnicodeEncodeError, calls)"
  by (simp add: eval_defs)

text \<open>
  Claim C6 at the transcription "search" followed by a space and the lone surrogate
  U+DC80: \<open>execute\<close> does not return normally, it raises \<^verbatim>\<open>UnicodeEncodeError\<close>. The
  call of \<^verbatim>\<open>urllib.parse.quote\<close> in \<^verbatim>\<open>_handle_search\<close> is outside every
  \<^verbatim>\<open>try\<close>, unlike the calls in \<^verbatim>\<open>_open_browser\<close> and \<^verbatim>\<open>_open_system_settings\<close>.
\<close>

theorem execute_raises_on_surrogate:
  "execute h (lit ''search '' @ [LoneSurr]) calls = (Some UnicodeEncodeError, calls)
   \<and> execute h (lit ''open youtube and find '' @ [LoneSurr] @ lit '' then open github'') calls =
       (Some UnicodeEncodeError, calls @ [OpenNewTab ''https://www.youtube.com''])"
  by (simp add: eval_defs)

end
